theory Spec2Isabelle
  imports Main "HOL-Library.Word"
begin

section \<open>JavaScript strings and arrays\<close>

text \<open>
  Strings are lists of characters, a character being one code unit below 256. The
  operations below are the ones the converter calls on paths and names: \<^verbatim>\<open>String.prototype.split\<close> with a one-character
  separator, \<^verbatim>\<open>Array.prototype.join\<close>, \<^verbatim>\<open>startsWith\<close>,
  \<^verbatim>\<open>trim\<close>.
\<close>

text \<open>
  \<^verbatim>\<open>s.split(c)\<close>: the pieces of \<open>s\<close> between occurrences of \<open>c\<close>. The result is
  never empty: \<^verbatim>\<open>"".split("/")\<close> is \<^verbatim>\<open>[""]\<close>.
\<close>

fun split :: "char \<Rightarrow> string \<Rightarrow> string list" where
  "split c [] = [[]]"
| "split c (x # xs) =
     (if x = c then [] # split c xs
      else (case split c xs of
              w # ws \<Rightarrow> (x # w) # ws
            | [] \<Rightarrow> [[x]]))"

text \<open>\<^verbatim>\<open>parts.join(c)\<close>.\<close>

fun join :: "char \<Rightarrow> string list \<Rightarrow> string" where
  "join c [] = []"
| "join c [w] = w"
| "join c (w # v # ws) = w @ c # join c (v # ws)"

text \<open>\<^verbatim>\<open>s.startsWith(p)\<close>.\<close>

fun startsWith :: "string \<Rightarrow> string \<Rightarrow> bool" where
  "startsWith s [] = True"
| "startsWith [] (p # ps) = False"
| "startsWith (x # xs) (p # ps) = (x = p \<and> startsWith xs ps)"

text \<open>
  \<^verbatim>\<open>parts.pop()\<close> on a non-empty array returns the last element and leaves the
  others: \<open>last\<close> and \<open>butlast\<close>. Every array the converter pops comes from
  \<open>split\<close> and is non-empty.
\<close>

text \<open>
  The white space and line terminators of the language among the code units below 256:
  tab, line feed, vertical tab, form feed, carriage return, space and the no-break space
  U+00A0.
\<close>

definition isSpace :: "char \<Rightarrow> bool" where
  "isSpace c \<longleftrightarrow>
     c \<in> {CHR 0x09, CHR 0x0A, CHR 0x0B, CHR 0x0C, CHR 0x0D, CHR 0x20, CHR 0xA0}"

text \<open>\<^verbatim>\<open>s.trim()\<close>: the string without the white space at its two ends.\<close>

definition trim :: "string \<Rightarrow> string" where
  "trim s = rev (dropWhile isSpace (rev (dropWhile isSpace s)))"

text \<open>
  The decimal text of an integer. It is the text that a template literal prints for the
  Number of an integer of magnitude below 2^53, and the examples take it for that.
\<close>

definition digit :: "nat \<Rightarrow> char" where
  "digit d = char_of (48 + d)"

fun show_nat :: "nat \<Rightarrow> string" where
  "show_nat n = (if n < 10 then [digit n] else show_nat (n div 10) @ [digit (n mod 10)])"

declare show_nat.simps [simp del]

definition decimalText :: "int \<Rightarrow> string" where
  "decimalText n = (if n < 0 then ''-'' @ show_nat (nat (- n)) else show_nat (nat n))"

section \<open>The extension rename\<close>

text \<open>
  The body of \<^verbatim>\<open>reader.onload\<close> in \<^verbatim>\<open>handleFileProcessing\<close>:
  \<^verbatim>\<open>
  const pathParts = originalPath.split('/');
  const nameAndExt = pathParts.pop()!;
  const nameParts = nameAndExt.split('.');
  if (nameParts.length > 1) { nameParts.pop(); }
  const newName = `${nameParts.join('.')}.${targetConversionType}`;
  const newPath = [...pathParts, newName].filter(Boolean).join('/');
  \<close>
  \<^verbatim>\<open>filter(Boolean)\<close> keeps the non-empty strings.
\<close>

definition baseName :: "string \<Rightarrow> string" where
  "baseName nameAndExt =
     (let nameParts = split CHR ''.'' nameAndExt;
          nameParts' = (if length nameParts > 1 then butlast nameParts else nameParts)
      in join CHR ''.'' nameParts')"

definition newName :: "string \<Rightarrow> string \<Rightarrow> string" where
  "newName nameAndExt targetConversionType =
     baseName nameAndExt @ ''.'' @ targetConversionType"

definition newPath_of :: "string \<Rightarrow> string \<Rightarrow> string" where
  "newPath_of originalPath targetConversionType =
     (let parts = split CHR ''/'' originalPath;
          nameAndExt = last parts;
          pathParts = butlast parts
      in join CHR ''/''
           (filter (\<lambda>s. s \<noteq> []) (pathParts @ [newName nameAndExt targetConversionType])))"

text \<open>\<^verbatim>\<open>name.split('.').pop() || 'file'\<close>\<close>

definition getFileType :: "string \<Rightarrow> string" where
  "getFileType name = (let t = last (split CHR ''.'' name) in if t = [] then ''file'' else t)"

definition ConversionOptions :: "string list" where
  "ConversionOptions = [''ts'', ''tsx'', ''js'', ''jsx'', ''json'', ''txt'', ''html'', ''css'', ''md'']"


text \<open>
  The rename in the words of the specification, to compare \<open>newPath_of\<close> with: the
  leaf name is cut at its last \<^verbatim>\<open>.\<close> to give the base name (the whole leaf when it
  has no \<^verbatim>\<open>.\<close>), and the new path is the original one with the leaf replaced by
  the base name, a \<^verbatim>\<open>.\<close> and the target extension, every directory segment kept as
  it is.
\<close>

definition spec_baseName :: "string \<Rightarrow> string" where
  "spec_baseName leaf =
     (if CHR ''.'' \<in> set leaf
        then rev (tl (dropWhile (\<lambda>c. c \<noteq> CHR ''.'') (rev leaf)))
      else leaf)"

definition spec_newPath :: "string \<Rightarrow> string \<Rightarrow> string" where
  "spec_newPath path targetExtension =
     (let parts = split CHR ''/'' path in
      join CHR ''/'' (butlast parts @ [spec_baseName (last parts) @ ''.'' @ targetExtension]))"

section \<open>Files, records and promises\<close>

type_synonym byte = "8 word"

text \<open>
  A browser \<^verbatim>\<open>File\<close>: its name, its size (an unsigned integer), its modification
  time (an integer, negative before 1970), and what \<^verbatim>\<open>FileReader.readAsArrayBuffer\<close>
  delivers for it: the bytes (\<^verbatim>\<open>onload\<close>) or \<open>None\<close> when the read fails
  (\<^verbatim>\<open>onerror\<close>).
\<close>

record File =
  name :: string
  fsize :: nat
  lastModified :: int
  bytes :: "byte list option"

text \<open>
  \<^verbatim>\<open>ProcessedFile\<close> and \<^verbatim>\<open>SerializableFile\<close> have the same fields and differ in
  the type of \<^verbatim>\<open>content\<close> (an \<^verbatim>\<open>ArrayBuffer\<close>, a base64 string).
\<close>

record 'c FileRecord =
  fileId :: string
  originalPath :: string
  newPath :: string
  content :: 'c
  originalType :: string
  newType :: string

type_synonym ProcessedFile = "byte list FileRecord"
type_synonym SerializableFile = "string FileRecord"
type_synonym FileWithRelativePath = "File \<times> string"

text \<open>\<^verbatim>\<open>{ ...file, content: c }\<close>\<close>

definition withContent :: "'d \<Rightarrow> 'c FileRecord \<Rightarrow> 'd FileRecord" where
  "withContent c f =
     \<lparr>fileId = fileId f, originalPath = originalPath f, newPath = newPath f, content = c,
      originalType = originalType f, newType = newType f\<rparr>"

text \<open>
  A promise is fulfilled with a value, rejected with a reason, or never settles.
\<close>

datatype ('e, 'a) promise = Fulfilled 'a | Rejected 'e | Pending

text \<open>
  \<^verbatim>\<open>Promise.all\<close>, by its outcome: rejected when some input is rejected, fulfilled
  with the values in the order of the inputs when all are fulfilled, pending otherwise.
  Of several rejections the platform reports the one that settles first; this function
  reports the first in the list, and is used where the reason carries no information.
\<close>

fun promise_all :: "('e, 'a) promise list \<Rightarrow> ('e, 'a list) promise" where
  "promise_all [] = Fulfilled []"
| "promise_all (Rejected e # ps) = Rejected e"
| "promise_all (Fulfilled v # ps) =
     (case promise_all ps of
        Fulfilled vs \<Rightarrow> Fulfilled (v # vs)
      | Rejected e \<Rightarrow> Rejected e
      | Pending \<Rightarrow> Pending)"
| "promise_all (Pending # ps) =
     (case promise_all ps of
        Rejected e \<Rightarrow> Rejected e
      | _ \<Rightarrow> Pending)"

text \<open>
  \<^verbatim>\<open>Promise.all\<close>, step by step: \<open>order\<close> lists the indices of the inputs in the
  order in which they settle. Each fulfilment stores its value in the slot of its index
  in a result array that has one slot per input; the first rejection rejects the whole;
  once every slot is filled the result array is the value.
\<close>

fun settle_all ::
  "('e, 'a) promise list \<Rightarrow> nat list \<Rightarrow> 'a option list \<Rightarrow> ('e, 'a list) promise" where
  "settle_all ps [] vals =
     (if list_all (\<lambda>v. v \<noteq> None) vals then Fulfilled (map the vals) else Pending)"
| "settle_all ps (i # order) vals =
     (if list_all (\<lambda>v. v \<noteq> None) vals then Fulfilled (map the vals)
      else if i < length ps then
        (case ps ! i of
           Fulfilled v \<Rightarrow> settle_all ps order (vals[i := Some v])
         | Rejected e \<Rightarrow> Rejected e
         | Pending \<Rightarrow> settle_all ps order vals)
      else settle_all ps order vals)"

definition promise_all_settling ::
  "('e, 'a) promise list \<Rightarrow> nat list \<Rightarrow> ('e, 'a list) promise" where
  "promise_all_settling ps order = settle_all ps order (replicate (length ps) None)"

section \<open>Directory traversal\<close>

text \<open>
  A directory reader is the list of the answers it gives to successive
  \<^verbatim>\<open>readEntries\<close> calls: a batch of entries, or an error. A reader whose answers run
  out never calls back.
\<close>

datatype 'e read_result = Entries "'e list" | ReadError

text \<open>
  What \<^verbatim>\<open>webkitGetAsEntry\<close> and \<^verbatim>\<open>readEntries\<close> hand out: \<open>Null\<close>, a file entry
  with its \<^verbatim>\<open>fullPath\<close> and the outcome of \<^verbatim>\<open>entry.file\<close> (\<open>None\<close> when it
  calls the error callback), a directory entry with its reader, or an entry that is
  neither a file nor a directory.
\<close>

datatype entry =
    Null
  | FileEntry string "File option"
  | DirectoryEntry "entry read_result list"
  | OtherEntry

datatype dom_error = DOMException

text \<open>
  \<^verbatim>\<open>
  function readEntries() {
      directoryReader.readEntries(entries => {
          if (entries.length === 0) { resolve(allEntries); }
          else { allEntries = allEntries.concat(entries); readEntries(); }
      }, reject);
  }
  \<close>
\<close>

fun readAllDirectoryEntries ::
  "'e read_result list \<Rightarrow> 'e list \<Rightarrow> (dom_error, 'e list) promise" where
  "readAllDirectoryEntries [] allEntries = Pending"
| "readAllDirectoryEntries (ReadError # directoryReader) allEntries = Rejected DOMException"
| "readAllDirectoryEntries (Entries entries # directoryReader) allEntries =
     (if entries = [] then Fulfilled allEntries
      else readAllDirectoryEntries directoryReader (allEntries @ entries))"

lemma readAllDirectoryEntries_mem:
  "readAllDirectoryEntries rs acc = Fulfilled es \<Longrightarrow> x \<in> set es \<Longrightarrow>
     x \<in> set acc \<or> (\<exists>b. Entries b \<in> set rs \<and> x \<in> set b)"
  by (induction rs acc rule: readAllDirectoryEntries.induct) (auto split: if_splits)

lemma size_in_reader:
  "Entries b \<in> set rs \<Longrightarrow> x \<in> set b \<Longrightarrow> size x < Suc (size_list (size_read_result size) rs)"
proof (induction rs)
  case Nil
  then show ?case by simp
next
  case (Cons r rs)
  have "size x \<le> size_list size b"
    using Cons.prems(2) by (rule size_list_estimation') simp
  with Cons show ?case by (auto simp: less_Suc_eq_le)
qed

function getFilesFromEntry :: "entry \<Rightarrow> (dom_error, FileWithRelativePath list) promise" where
  "getFilesFromEntry Null = Fulfilled []"
| "getFilesFromEntry (FileEntry fullPath f) =
     (case f of
        Some file \<Rightarrow>
          Fulfilled [(file, if startsWith fullPath ''/'' then drop 1 fullPath else fullPath)]
      | None \<Rightarrow> Rejected DOMException)"
| "getFilesFromEntry (DirectoryEntry reader) =
     (case readAllDirectoryEntries reader [] of
        Fulfilled entries \<Rightarrow>
          (case promise_all (map getFilesFromEntry entries) of
             Fulfilled nestedFiles \<Rightarrow> Fulfilled (concat nestedFiles)
           | Rejected e \<Rightarrow> Rejected e
           | Pending \<Rightarrow> Pending)
      | Rejected e \<Rightarrow> Rejected e
      | Pending \<Rightarrow> Pending)"
| "getFilesFromEntry OtherEntry = Fulfilled []"
  by pat_completeness auto
termination
proof (relation "measure size")
  show "wf (measure size)" by simp
next
  fix reader :: "entry read_result list" and entries x
  assume "readAllDirectoryEntries reader [] = Fulfilled entries" "x \<in> set entries"
  then obtain b where "Entries b \<in> set reader" "x \<in> set b"
    using readAllDirectoryEntries_mem by fastforce
  then show "(x, DirectoryEntry reader) \<in> measure size"
    using size_in_reader by fastforce
qed

text \<open>
  A drop's \<^verbatim>\<open>DataTransfer\<close>: for each item what \<^verbatim>\<open>webkitGetAsEntry()\<close> returns,
  whether the items have that method at all, and the flat file list
  (\<^verbatim>\<open>dataTransfer.items\<close>, \<^verbatim>\<open>dataTransfer.files\<close>).
\<close>

record DataTransfer =
  dt_items :: "entry list"
  webkitGetAsEntry :: bool
  dt_files :: "File list"

fun isNull :: "entry \<Rightarrow> bool" where
  "isNull Null = True"
| "isNull _ = False"

definition hiddenPath :: "FileWithRelativePath \<Rightarrow> bool" where
  "hiddenPath f = startsWith (last (split CHR ''/'' (snd f))) ''.''"

definition extractFilesFromDataTransfer ::
  "DataTransfer \<Rightarrow> (dom_error, FileWithRelativePath list) promise" where
  "extractFilesFromDataTransfer dataTransfer =
     (if dt_items dataTransfer \<noteq> [] \<and> webkitGetAsEntry dataTransfer then
        (let entries = filter (\<lambda>e. \<not> isNull e) (dt_items dataTransfer) in
         case promise_all (map getFilesFromEntry entries) of
           Fulfilled filesArrays \<Rightarrow>
             Fulfilled (filter (\<lambda>f. \<not> hiddenPath f) (concat filesArrays))
         | Rejected e \<Rightarrow> Rejected e
         | Pending \<Rightarrow> Pending)
      else
        Fulfilled
          (map (\<lambda>file. (file, name file))
             (filter (\<lambda>file. \<not> startsWith (name file) ''.'' \<and> fsize file > 0)
                (dt_files dataTransfer))))"

section \<open>Base64 and the persistence shim\<close>

text \<open>
  \<^verbatim>\<open>window.btoa\<close> and \<^verbatim>\<open>window.atob\<close> are the platform's: \<open>btoa\<close> encodes a
  string of code units below 256 with the alphabet of RFC 4648 and pads with
  \<^verbatim>\<open>=\<close>; \<open>atob\<close> is the forgiving decoder: it drops ASCII white space, drops one
  or two \<^verbatim>\<open>=\<close> at the end of an input whose length is a multiple of 4, fails on a
  length that leaves remainder 1 and on any character outside the alphabet, and discards
  the bits of an incomplete last group. A \<open>char\<close> is one code unit below 256, so \<open>btoa\<close>
  never fails here; \<open>atob\<close> returns \<open>None\<close> where the platform throws.
\<close>

definition b64chars :: string where
  "b64chars = ''ABCDEFGHIJKLMNOPQRSTUVWXYZabcdefghijklmnopqrstuvwxyz0123456789+/''"

definition b64char :: "nat \<Rightarrow> char" where
  "b64char i = b64chars ! i"

fun index_of :: "'a \<Rightarrow> 'a list \<Rightarrow> nat" where
  "index_of x [] = 0"
| "index_of x (y # ys) = (if x = y then 0 else Suc (index_of x ys))"

definition b64index :: "char \<Rightarrow> nat" where
  "b64index c = index_of c b64chars"

fun sextets :: "nat list \<Rightarrow> nat list" where
  "sextets (a # b # c # rest) =
     [a div 4, (a mod 4) * 16 + b div 16, (b mod 16) * 4 + c div 64, c mod 64] @ sextets rest"
| "sextets [a, b] = [a div 4, (a mod 4) * 16 + b div 16, (b mod 16) * 4]"
| "sextets [a] = [a div 4, (a mod 4) * 16]"
| "sextets [] = []"

definition padding :: "nat \<Rightarrow> string" where
  "padding n = replicate ((3 - n mod 3) mod 3) CHR ''=''"

definition btoa :: "string \<Rightarrow> string" where
  "btoa binary = map b64char (sextets (map of_char binary)) @ padding (length binary)"

fun octets :: "nat list \<Rightarrow> nat list" where
  "octets (s1 # s2 # s3 # s4 # rest) =
     [s1 * 4 + s2 div 16, (s2 mod 16) * 16 + s3 div 4, (s3 mod 4) * 64 + s4] @ octets rest"
| "octets [s1, s2, s3] = [s1 * 4 + s2 div 16, (s2 mod 16) * 16 + s3 div 4]"
| "octets [s1, s2] = [s1 * 4 + s2 div 16]"
| "octets _ = []"

definition asciiWhitespace :: "char \<Rightarrow> bool" where
  "asciiWhitespace c \<longleftrightarrow> c \<in> {CHR 0x09, CHR 0x0A, CHR 0x0C, CHR 0x0D, CHR '' ''}"

definition removePadding :: "string \<Rightarrow> string" where
  "removePadding d =
     (if length d mod 4 = 0 then
        (if 2 \<le> length d \<and> last d = CHR ''='' \<and> last (butlast d) = CHR ''=''
           then butlast (butlast d)
         else if d \<noteq> [] \<and> last d = CHR ''='' then butlast d
         else d)
      else d)"

definition atob :: "string \<Rightarrow> string option" where
  "atob base64 =
     (let d = removePadding (filter (\<lambda>c. \<not> asciiWhitespace c) base64) in
      if length d mod 4 = 1 then None
      else if list_ex (\<lambda>c. c \<notin> set b64chars) d then None
      else Some (map char_of (octets (map b64index d))))"

text \<open>
  \<^verbatim>\<open>
  let binary = '';
  const bytes = new Uint8Array(buffer);
  for (let i = 0; i < bytes.length; i++) { binary += String.fromCharCode(bytes[i]); }
  return window.btoa(binary);
  \<close>
\<close>

definition arrayBufferToBase64 :: "byte list \<Rightarrow> string" where
  "arrayBufferToBase64 buffer =
     btoa (foldl (\<lambda>binary b. binary @ [char_of (unat b)]) [] buffer)"

text \<open>
  \<^verbatim>\<open>
  const binary_string = window.atob(base64);
  const bytes = new Uint8Array(len);
  for (let i = 0; i < len; i++) { bytes[i] = binary_string.charCodeAt(i); }
  \<close>
  \<open>None\<close> when \<^verbatim>\<open>atob\<close> throws.
\<close>

definition base64ToArrayBuffer :: "string \<Rightarrow> byte list option" where
  "base64ToArrayBuffer base64 =
     (case atob base64 of
        None \<Rightarrow> None
      | Some binary_string \<Rightarrow> Some (map (\<lambda>c. of_nat (of_char c)) binary_string))"

text \<open>
  \<^verbatim>\<open>localStorage\<close> maps keys to strings. A string written by \<^verbatim>\<open>JSON.stringify\<close>
  is represented by the value that \<^verbatim>\<open>JSON.parse\<close> reads back from it (\<open>FilesJSON\<close>);
  any other stored text is \<open>OtherText\<close>. The platform refuses a write that exceeds the
  quota: \<open>accepts\<close> tells, for the present contents, a key and a value, whether
  \<^verbatim>\<open>setItem\<close> succeeds; where it does not, \<^verbatim>\<open>setItem\<close> throws and the contents
  stay as they are. \<^verbatim>\<open>removeItem\<close> and \<^verbatim>\<open>getItem\<close> do not depend on the quota.
\<close>

datatype stored = FilesJSON "SerializableFile list" | OtherText string

record Storage =
  entries :: "string \<rightharpoonup> stored"
  accepts :: "(string \<rightharpoonup> stored) \<Rightarrow> string \<Rightarrow> stored \<Rightarrow> bool"

datatype storage_error = QuotaExceededError

definition setItem :: "string \<Rightarrow> stored \<Rightarrow> Storage \<Rightarrow> storage_error + Storage" where
  "setItem key v store =
     (if accepts store (entries store) key v
        then Inr (store\<lparr>entries := (entries store)(key \<mapsto> v)\<rparr>)
      else Inl QuotaExceededError)"

definition removeItem :: "string \<Rightarrow> Storage \<Rightarrow> Storage" where
  "removeItem key store = store\<lparr>entries := (entries store)(key := None)\<rparr>"

definition getItem :: "string \<Rightarrow> Storage \<Rightarrow> stored option" where
  "getItem key store = entries store key"

text \<open>\<^verbatim>\<open>file => ({ ...file, content: arrayBufferToBase64(file.content) })\<close>\<close>

definition serializeFile :: "ProcessedFile \<Rightarrow> SerializableFile" where
  "serializeFile file = withContent (arrayBufferToBase64 (content file)) file"

text \<open>
  \<^verbatim>\<open>file => ({ ...file, content: base64ToArrayBuffer(file.content) })\<close>, \<open>None\<close>
  when \<^verbatim>\<open>atob\<close> throws.
\<close>

definition deserializeFile :: "SerializableFile \<Rightarrow> ProcessedFile option" where
  "deserializeFile file =
     (case base64ToArrayBuffer (content file) of
        None \<Rightarrow> None
      | Some c \<Rightarrow> Some (withContent c file))"

text \<open>
  \<^verbatim>\<open>
  try {
      if (processedFiles.length === 0) { localStorage.removeItem('fileConverterState'); return; }
      const serializableFiles = processedFiles.map(...);
      localStorage.setItem('fileConverterState', JSON.stringify(serializableFiles));
  } catch (error) { console.error(...); }
  \<close>
  \<^verbatim>\<open>btoa\<close> and \<^verbatim>\<open>JSON.stringify\<close> do not throw on these values; the
  \<^verbatim>\<open>catch\<close> meets the error of a refused \<^verbatim>\<open>setItem\<close>, logs it and leaves the
  store as it is.
\<close>

definition saveStateToLocalStorage :: "ProcessedFile list \<Rightarrow> Storage \<Rightarrow> Storage" where
  "saveStateToLocalStorage processedFiles localStorage =
     (if length processedFiles = 0 then removeItem ''fileConverterState'' localStorage
      else
        (let serializableFiles = map serializeFile processedFiles in
         case setItem ''fileConverterState'' (FilesJSON serializableFiles) localStorage of
           Inr written \<Rightarrow> written
         | Inl error \<Rightarrow> localStorage))"

text \<open>
  Loading returns \<^verbatim>\<open>[]\<close> when the key is absent, when the stored text does not
  parse to a list of files, and when \<^verbatim>\<open>atob\<close> throws on some content (the
  \<^verbatim>\<open>catch\<close> around the whole body).
\<close>

fun those_all :: "'a option list \<Rightarrow> 'a list option" where
  "those_all [] = Some []"
| "those_all (None # xs) = None"
| "those_all (Some x # xs) = (case those_all xs of None \<Rightarrow> None | Some ys \<Rightarrow> Some (x # ys))"

definition loadStateFromLocalStorage :: "Storage \<Rightarrow> ProcessedFile list" where
  "loadStateFromLocalStorage localStorage =
     (case getItem ''fileConverterState'' localStorage of
        Some (FilesJSON serializableFiles) \<Rightarrow>
          (case those_all (map deserializeFile serializableFiles) of
             Some fs \<Rightarrow> fs
           | None \<Rightarrow> [])
      | _ \<Rightarrow> [])"

section \<open>The ingestion pipeline\<close>

datatype View = UploadView | FilesView

record App =
  processedFiles :: "ProcessedFile list"
  view :: View
  targetConversionType :: string
  isLoading :: bool
  alerts :: "string list"
  localStorage :: Storage

text \<open>
  \<^verbatim>\<open>setProcessedFiles\<close> followed by the effect that depends on
  \<^verbatim>\<open>processedFiles\<close>: save the state, and show the upload view when there are no
  files, the file view otherwise.
\<close>

definition setProcessedFiles :: "ProcessedFile list \<Rightarrow> App \<Rightarrow> App" where
  "setProcessedFiles newFiles app =
     app\<lparr>processedFiles := newFiles,
         localStorage := saveStateToLocalStorage newFiles (localStorage app),
         view := (if length newFiles = 0 then UploadView else FilesView)\<rparr>"

text \<open>
  The record that \<^verbatim>\<open>reader.onload\<close> resolves with. Its \<^verbatim>\<open>id\<close> is the template
  literal \<^verbatim>\<open>`${originalPath}-${item.file.lastModified}-${item.file.size}`\<close>; the text
  that the platform gives for a Number is the platform's, and is taken as the parameter
  \<open>numberToString\<close>, from the integer that the file has to the text of its Number.
\<close>

definition makeRecord ::
  "(int \<Rightarrow> string) \<Rightarrow> string \<Rightarrow> FileWithRelativePath \<Rightarrow> byte list \<Rightarrow> ProcessedFile" where
  "makeRecord numberToString targetType item result =
     (let originalPath = snd item in
      \<lparr>fileId = originalPath @ ''-'' @ numberToString (lastModified (fst item)) @ ''-''
                  @ numberToString (int (fsize (fst item))),
       originalPath = originalPath,
       newPath = newPath_of originalPath targetType,
       content = result,
       originalType = getFileType originalPath,
       newType = targetType\<rparr>)"

text \<open>
  One promise per item: fulfilled with the record when the read succeeds, rejected with
  the file when it fails (\<^verbatim>\<open>reject({ error, file: item.file })\<close>).
\<close>

definition filePromise ::
  "(int \<Rightarrow> string) \<Rightarrow> string \<Rightarrow> FileWithRelativePath \<Rightarrow> (File, ProcessedFile) promise" where
  "filePromise numberToString targetType item =
     (case bytes (fst item) of
        Some result \<Rightarrow> Fulfilled (makeRecord numberToString targetType item result)
      | None \<Rightarrow> Rejected (fst item))"

text \<open>
  \<^verbatim>\<open>handleFileProcessing\<close>; \<open>order\<close> is the order in which the reads settle.
  While \<^verbatim>\<open>Promise.all\<close> is pending the loader stays on.
\<close>

definition handleFileProcessing ::
  "(int \<Rightarrow> string) \<Rightarrow> FileWithRelativePath list \<Rightarrow> nat list \<Rightarrow> App \<Rightarrow> App" where
  "handleFileProcessing numberToString items order app =
     (if length items = 0 then app\<lparr>isLoading := False\<rparr>
      else
        (case promise_all_settling
                (map (filePromise numberToString (targetConversionType app)) items) order of
           Fulfilled newFiles \<Rightarrow>
             (setProcessedFiles newFiles app)\<lparr>view := FilesView, isLoading := False\<rparr>
         | Rejected file \<Rightarrow>
             app\<lparr>alerts := alerts app @
                    [''An error occurred while reading file: '' @ name file @ ''.''],
                 isLoading := False\<rparr>
         | Pending \<Rightarrow> app\<lparr>isLoading := True\<rparr>))"

definition handleDroppedItems ::
  "(int \<Rightarrow> string) \<Rightarrow> DataTransfer \<Rightarrow> nat list \<Rightarrow> App \<Rightarrow> App" where
  "handleDroppedItems numberToString dataTransfer order app =
     (case extractFilesFromDataTransfer dataTransfer of
        Fulfilled items \<Rightarrow> handleFileProcessing numberToString items order app
      | Rejected err \<Rightarrow>
          app\<lparr>alerts := alerts app @ [''Could not read dropped items.''], isLoading := False\<rparr>
      | Pending \<Rightarrow> app\<lparr>isLoading := True\<rparr>)"

definition handleClear :: "App \<Rightarrow> App" where
  "handleClear app = setProcessedFiles [] app"

section \<open>The chat panel\<close>

datatype Role = User | Model

record Message =
  role :: Role
  msgText :: string
  image :: "string option"

record Chat =
  messages :: "Message list"
  input :: string
  chatIsLoading :: bool
  attachedImage :: "(File \<times> string) option"

text \<open>
  What the network does with one request. The body of a response is the list of its
  chunks, each already decoded by the streaming \<^verbatim>\<open>TextDecoder\<close>, and the way the
  stream ends: \<^verbatim>\<open>done\<close>, or a rejected \<^verbatim>\<open>reader.read()\<close> with its message.
\<close>

datatype stream_end = EndOfStream | ReadFailure string

text \<open>
  What \<^verbatim>\<open>errorBody.error\<close> reads from a parsed body other than \<^verbatim>\<open>null\<close>: a
  string; a truthy value that is not a string (a number other than 0, \<^verbatim>\<open>true\<close>, an
  array, an object), with the text that \<^verbatim>\<open>new Error\<close> makes of it; or nothing that
  counts (the property is absent, as in every body that is not an object, or is
  \<^verbatim>\<open>null\<close>, \<^verbatim>\<open>false\<close> or 0).
\<close>

datatype error_property = ErrorString string | ErrorTruthy string | ErrorFalsy

text \<open>
  What \<^verbatim>\<open>response.json()\<close> gives: it rejects (the body is not JSON); the body is
  \<^verbatim>\<open>null\<close>, and reading \<^verbatim>\<open>errorBody.error\<close> throws a \<^verbatim>\<open>TypeError\<close> with a
  message that the engine words; or it is another value, with its \<^verbatim>\<open>error\<close>
  property.
\<close>

datatype json_outcome = JsonRejected | JsonNull string | JsonValue error_property

record Response =
  ok :: bool
  statusText :: string
  body :: "(string list \<times> stream_end) option"
  json :: json_outcome

datatype fetched = NetworkError string | Responded Response

text \<open>
  \<open>imageBase64\<close> is the outcome of \<^verbatim>\<open>fileToBase64\<close> for an attached image
  (\<open>None\<close> when the read fails), \<open>fetchResult\<close> the outcome of \<^verbatim>\<open>fetch\<close>.
\<close>

record Network =
  imageBase64 :: "string option"
  fetchResult :: fetched

text \<open>
  \<^verbatim>\<open>
  const errorBody = await response.json().catch(() => ({ error: 'Failed to parse error response.' }));
  throw new Error(errorBody.error || response.statusText || 'Failed to get a response from the server.');
  \<close>
  The message of the error that these two lines throw. An empty string is falsy. For the
  body \<^verbatim>\<open>null\<close> the error is the \<^verbatim>\<open>TypeError\<close> of the property read.
\<close>

definition thrownMessage :: "Response \<Rightarrow> string" where
  "thrownMessage response =
     (case json response of
        JsonNull typeErrorMessage \<Rightarrow> typeErrorMessage
      | JsonRejected \<Rightarrow> ''Failed to parse error response.''
      | JsonValue (ErrorString (c # cs)) \<Rightarrow> c # cs
      | JsonValue (ErrorTruthy t) \<Rightarrow> t
      | JsonValue _ \<Rightarrow>
          (if statusText response \<noteq> [] then statusText response
           else ''Failed to get a response from the server.''))"

text \<open>
  The updater of the later chunks:
  \<^verbatim>\<open>
  const lastMessageIndex = prev.length - 1;
  if (prev[lastMessageIndex]?.role === 'model') {
      const updatedMessages = [...prev];
      updatedMessages[lastMessageIndex] = { ...updatedMessages[lastMessageIndex],
          text: updatedMessages[lastMessageIndex].text + chunk };
      return updatedMessages;
  }
  return prev;
  \<close>
\<close>

definition appendChunk :: "string \<Rightarrow> Message list \<Rightarrow> Message list" where
  "appendChunk chunk prev =
     (if prev \<noteq> [] \<and> role (last prev) = Model then
        prev[length prev - 1 := (last prev)\<lparr>msgText := msgText (last prev) @ chunk\<rparr>]
      else prev)"

text \<open>The \<^verbatim>\<open>while (true)\<close> loop over the chunks, with its flag \<^verbatim>\<open>isFirstChunk\<close>.\<close>

fun readLoop :: "bool \<Rightarrow> string list \<Rightarrow> Message list \<Rightarrow> Message list" where
  "readLoop isFirstChunk [] prev = prev"
| "readLoop isFirstChunk (chunk # chunks) prev =
     (if isFirstChunk then
        readLoop False chunks (prev @ [\<lparr>role = Model, msgText = chunk, image = None\<rparr>])
      else readLoop False chunks (appendChunk chunk prev))"

text \<open>
  The \<^verbatim>\<open>try\<close> block: the messages as it leaves them, and the message of the error
  it throws, if any. A failed image read rejects with a \<^verbatim>\<open>ProgressEvent\<close>, which
  \<^verbatim>\<open>String(error)\<close> renders as below. The request payload (the prompt built from the
  files) does not influence the state, the response being given.
\<close>

definition tryBlock ::
  "Network \<Rightarrow> (File \<times> string) option \<Rightarrow> Message list \<Rightarrow> Message list \<times> string option" where
  "tryBlock net tempAttachedImage msgs =
     (if tempAttachedImage \<noteq> None \<and> imageBase64 net = None
        then (msgs, Some ''[object ProgressEvent]'')
      else
        (case fetchResult net of
           NetworkError m \<Rightarrow> (msgs, Some m)
         | Responded response \<Rightarrow>
             (case body response of
                None \<Rightarrow> (msgs, Some (thrownMessage response))
              | Some (chunks, ending) \<Rightarrow>
                  (if \<not> ok response then (msgs, Some (thrownMessage response))
                   else (readLoop True chunks msgs,
                         case ending of EndOfStream \<Rightarrow> None | ReadFailure m \<Rightarrow> Some m)))))"

definition handleSendMessage :: "Network \<Rightarrow> Chat \<Rightarrow> Chat" where
  "handleSendMessage net chat =
     (if (trim (input chat) = [] \<and> attachedImage chat = None) \<or> chatIsLoading chat then chat
      else
        (let userMessageText = trim (input chat);
             userMessage = \<lparr>role = User, msgText = userMessageText,
                             image = map_option snd (attachedImage chat)\<rparr>;
             (msgs, thrown) = tryBlock net (attachedImage chat) (messages chat @ [userMessage]);
             msgs' = (case thrown of
                        None \<Rightarrow> msgs
                      | Some errorMessageText \<Rightarrow>
                          msgs @ [\<lparr>role = Model,
                                   msgText = ''Sorry, an error occurred: '' @ errorMessageText,
                                   image = None\<rparr>])
         in chat\<lparr>messages := msgs', input := [], chatIsLoading := False,
                 attachedImage := None\<rparr>))"

section \<open>Facts\<close>

subsection \<open>Facts about split and join\<close>

lemma split_nonempty: "split c s \<noteq> []"
  by (induction s) (auto split: list.splits)

lemma split_no_sep: "w \<in> set (split c s) \<Longrightarrow> c \<notin> set w"
proof (induction s arbitrary: w)
  case Nil
  then show ?case by simp
next
  case (Cons x xs)
  then show ?case
    by (cases "split c xs") (auto simp: split_nonempty split: if_splits)
qed

lemma split_subset: "w \<in> set (split c s) \<Longrightarrow> set w \<subseteq> set s"
proof (induction s arbitrary: w)
  case Nil
  then show ?case by simp
next
  case (Cons x xs)
  show ?case
  proof (cases "split c xs")
    case Nil
    then show ?thesis using split_nonempty [of c xs] by simp
  next
    case (Cons v vs)
    with Cons.IH have "set v \<subseteq> set xs" "\<forall>u \<in> set vs. set u \<subseteq> set xs"
      by auto
    with Cons Cons.prems show ?thesis
      by (auto split: if_splits)
  qed
qed

lemma join_split: "join c (split c s) = s"
proof (induction s)
  case Nil
  then show ?case by simp
next
  case (Cons x xs)
  show ?case
  proof (cases "split c xs")
    case Nil
    then show ?thesis using split_nonempty [of c xs] by simp
  next
    case (Cons w ws)
    with Cons.IH show ?thesis by (cases ws) auto
  qed
qed

lemma split_free: "c \<notin> set w \<Longrightarrow> split c w = [w]"
  by (induction w) auto

lemma split_append_sep: "split c (a @ c # b) = split c a @ split c b"
proof (induction a)
  case Nil
  then show ?case by simp
next
  case (Cons x xs)
  then show ?case
    by (cases "split c xs") (auto simp: split_nonempty)
qed

lemma split_join:
  "ws \<noteq> [] \<Longrightarrow> \<forall>w \<in> set ws. c \<notin> set w \<Longrightarrow> split c (join c ws) = ws"
proof (induction c ws rule: join.induct)
  case (1 c)
  then show ?case by simp
next
  case (2 c w)
  then show ?case by (simp add: split_free)
next
  case (3 c w v ws)
  then show ?case by (simp add: split_append_sep split_free)
qed

lemma set_join: "set (join c ws) \<subseteq> insert c (\<Union> (set ` set ws))"
  by (induction c ws rule: join.induct) auto

subsection \<open>The extension rename\<close>

lemma newName_no_slash:
  assumes "CHR ''/'' \<notin> set leaf" and "CHR ''/'' \<notin> set e"
  shows "CHR ''/'' \<notin> set (newName leaf e)"
proof -
  have "CHR ''/'' \<notin> set (baseName leaf)"
  proof
    assume "CHR ''/'' \<in> set (baseName leaf)"
    then obtain ws where ws: "set ws \<subseteq> set (split CHR ''.'' leaf)"
        "CHR ''/'' \<in> set (join CHR ''.'' ws)"
      unfolding baseName_def Let_def by (auto split: if_splits dest: in_set_butlastD)
    with set_join [of "CHR ''.''" ws] obtain w where "w \<in> set ws" "CHR ''/'' \<in> set w"
      by auto
    with ws split_subset [of w "CHR ''.''" leaf] assms(1) show False by auto
  qed
  with assms(2) show ?thesis by (simp add: newName_def)
qed

lemma baseName_newName:
  assumes "CHR ''.'' \<notin> set e"
  shows "baseName (newName leaf e) = baseName leaf"
proof -
  define B where "B = baseName leaf"
  have "split CHR ''.'' (newName leaf e) = split CHR ''.'' B @ [e]"
    using assms by (simp add: newName_def B_def split_append_sep split_free)
  then show ?thesis
    using split_nonempty [of "CHR ''.''" B]
    by (simp add: baseName_def [of "newName leaf e"] Let_def join_split B_def)
qed

lemma ConversionOptions_plain:
  "e \<in> set ConversionOptions \<Longrightarrow> CHR ''.'' \<notin> set e \<and> CHR ''/'' \<notin> set e"
  by (auto simp: ConversionOptions_def)

text \<open>
  C2, as stated (renaming is idempotent for every path and every target extension), fails
  for a target extension that contains a dot: the second pass takes the extension's own
  last segment for the extension of the leaf.
\<close>

theorem rename_idempotent_counterexample:
  "newPath_of (newPath_of ''a.b'' ''tar.gz'') ''tar.gz'' \<noteq> newPath_of ''a.b'' ''tar.gz''"
  by (simp add: newPath_of_def newName_def baseName_def)

text \<open>
  C2, amended: for every path and every target extension that contains neither
  \<^verbatim>\<open>.\<close> nor \<^verbatim>\<open>/\<close> (all the extensions in \<open>ConversionOptions\<close> are such, by
  \<open>ConversionOptions_plain\<close>), renaming the renamed path again gives the same path.
\<close>

theorem rename_idempotent:
  assumes "CHR ''.'' \<notin> set e" and "CHR ''/'' \<notin> set e"
  shows "newPath_of (newPath_of p e) e = newPath_of p e"
proof -
  define parts where "parts = split CHR ''/'' p"
  define D where "D = filter (\<lambda>s. s \<noteq> []) (butlast parts)"
  define N where "N = newName (last parts) e"
  have parts: "parts \<noteq> []" by (simp add: parts_def split_nonempty)
  have N_ne: "N \<noteq> []" by (simp add: N_def newName_def)
  have r: "newPath_of p e = join CHR ''/'' (D @ [N])"
    using N_ne by (simp add: newPath_of_def Let_def parts_def D_def N_def)
  have "last parts \<in> set parts" using parts by simp
  then have "CHR ''/'' \<notin> set (last parts)"
    unfolding parts_def by (rule split_no_sep)
  then have N_slash: "CHR ''/'' \<notin> set N"
    unfolding N_def using assms(2) by (rule newName_no_slash)
  have D_slash: "\<forall>w \<in> set D. CHR ''/'' \<notin> set w"
    by (auto simp: D_def parts_def dest!: in_set_butlastD split_no_sep)
  have sp: "split CHR ''/'' (join CHR ''/'' (D @ [N])) = D @ [N]"
    by (rule split_join) (use N_slash D_slash in auto)
  have D_ne: "filter (\<lambda>s. s \<noteq> []) D = D" by (simp add: D_def)
  have "baseName N = baseName (last parts)"
    unfolding N_def using assms(1) by (rule baseName_newName)
  then have "newName N e = N"
    by (simp add: N_def newName_def)
  then show ?thesis
    unfolding r by (simp add: newPath_of_def [of "join CHR ''/'' (D @ [N])"] Let_def sp D_ne N_ne)
qed

theorem rename_idempotent_witness:
  "CHR ''.'' \<notin> set ''ts'' \<and> CHR ''/'' \<notin> set ''ts'' \<and>
   newPath_of (newPath_of ''src/components/Button.tsx'' ''ts'') ''ts'' =
     newPath_of ''src/components/Button.tsx'' ''ts''"
  using rename_idempotent [of "''ts''" "''src/components/Button.tsx''"] by simp

subsection \<open>The chat panel\<close>

lemma appendChunk_snoc:
  "role m = Model \<Longrightarrow>
   appendChunk chunk (prev @ [m]) = prev @ [m\<lparr>msgText := msgText m @ chunk\<rparr>]"
  by (simp add: appendChunk_def)

lemma readLoop_later:
  "role m = Model \<Longrightarrow>
   readLoop False chunks (prev @ [m]) = prev @ [m\<lparr>msgText := msgText m @ concat chunks\<rparr>]"
  by (induction chunks arbitrary: m) (simp_all add: appendChunk_snoc)

lemma readLoop_first:
  "readLoop True (chunk # chunks) prev =
     prev @ [\<lparr>role = Model, msgText = chunk @ concat chunks, image = None\<rparr>]"
  by (simp add: readLoop_later)

text \<open>A request that passes the guard: the state after it, from what the try block did.\<close>

lemma handleSendMessage_sends:
  assumes "\<not> ((trim (input chat) = [] \<and> attachedImage chat = None) \<or> chatIsLoading chat)"
    and "tryBlock net (attachedImage chat)
           (messages chat @ [\<lparr>role = User, msgText = trim (input chat),
                               image = map_option snd (attachedImage chat)\<rparr>]) = (msgs, thrown)"
  shows "messages (handleSendMessage net chat) =
           (case thrown of
              None \<Rightarrow> msgs
            | Some errorMessageText \<Rightarrow>
                msgs @ [\<lparr>role = Model,
                         msgText = ''Sorry, an error occurred: '' @ errorMessageText,
                         image = None\<rparr>])"
proof -
  let ?user = "\<lparr>role = User, msgText = trim (input chat),
                 image = map_option snd (attachedImage chat)\<rparr>"
  have "handleSendMessage net chat =
      (let (msgs, thrown) = tryBlock net (attachedImage chat) (messages chat @ [?user]);
           msgs' = (case thrown of
                      None \<Rightarrow> msgs
                    | Some errorMessageText \<Rightarrow>
                        msgs @ [\<lparr>role = Model,
                                 msgText = ''Sorry, an error occurred: '' @ errorMessageText,
                                 image = None\<rparr>])
       in chat\<lparr>messages := msgs', input := [], chatIsLoading := False,
               attachedImage := None\<rparr>)"
    by (simp only: handleSendMessage_def if_not_P [OF assms(1)] Let_def)
  with assms(2) show ?thesis by simp
qed

lemma tryBlock_streams:
  assumes "attachedImage chat \<noteq> None \<longrightarrow> imageBase64 net \<noteq> None"
    and "fetchResult net = Responded response"
    and "ok response"
    and "body response = Some (chunks, EndOfStream)"
  shows "tryBlock net (attachedImage chat) msgs = (readLoop True chunks msgs, None)"
  using assms by (auto simp: tryBlock_def)

text \<open>
  C1, as stated (every stream adds exactly one model message to the conversation), fails
  for the stream that ends before its first chunk: the loop leaves at once and the
  conversation gains the user's message only.
\<close>

theorem stream_reassembly_counterexample:
  "messages (handleSendMessage
      \<lparr>imageBase64 = None,
       fetchResult = Responded \<lparr>ok = True, statusText = ''OK'',
          body = Some ([], EndOfStream), json = JsonRejected\<rparr>\<rparr>
      \<lparr>messages = [], input = ''hi'', chatIsLoading = False, attachedImage = None\<rparr>) =
   [\<lparr>role = User, msgText = ''hi'', image = None\<rparr>]"
  by (simp add: handleSendMessage_def tryBlock_def trim_def isSpace_def)

text \<open>
  C1, amended: for every stream of at least one chunk that ends with the end-of-stream
  signal, a request that is sent adds to the conversation the user's message and exactly
  one model message, whose text is the concatenation of all the chunks in the order of
  arrival; for a stream that ends before its first chunk it adds the user's message only.
\<close>

theorem stream_reassembly:
  assumes "\<not> ((trim (input chat) = [] \<and> attachedImage chat = None) \<or> chatIsLoading chat)"
    and "attachedImage chat \<noteq> None \<longrightarrow> imageBase64 net \<noteq> None"
    and "fetchResult net = Responded response"
    and "ok response"
    and "body response = Some (chunks, EndOfStream)"
  shows "messages (handleSendMessage net chat) =
           messages chat @
             [\<lparr>role = User, msgText = trim (input chat),
                image = map_option snd (attachedImage chat)\<rparr>] @
             (if chunks = [] then []
              else [\<lparr>role = Model, msgText = concat chunks, image = None\<rparr>])"
proof -
  let ?user = "\<lparr>role = User, msgText = trim (input chat),
                 image = map_option snd (attachedImage chat)\<rparr>"
  have "tryBlock net (attachedImage chat) (messages chat @ [?user]) =
          (readLoop True chunks (messages chat @ [?user]), None)"
    using assms(2-5) by (rule tryBlock_streams)
  with assms(1) have m: "messages (handleSendMessage net chat) =
          readLoop True chunks (messages chat @ [?user])"
    by (simp add: handleSendMessage_sends del: readLoop.simps)
  show ?thesis
  proof (cases chunks)
    case Nil
    with m show ?thesis by simp
  next
    case (Cons chunk rest)
    with m have "messages (handleSendMessage net chat) =
        (messages chat @ [?user]) @ [\<lparr>role = Model, msgText = chunk @ concat rest, image = None\<rparr>]"
      by (simp only: readLoop_first)
    with Cons show ?thesis by simp
  qed
qed

theorem stream_reassembly_witness:
  "messages (handleSendMessage
      \<lparr>imageBase64 = None,
       fetchResult = Responded \<lparr>ok = True, statusText = ''OK'',
          body = Some ([''He'', ''l'', ''lo wo'', ''rld''], EndOfStream), json = JsonRejected\<rparr>\<rparr>
      \<lparr>messages = [], input = ''hi'', chatIsLoading = False, attachedImage = None\<rparr>) =
   [\<lparr>role = User, msgText = ''hi'', image = None\<rparr>,
    \<lparr>role = Model, msgText = ''Hello world'', image = None\<rparr>]"
  using stream_reassembly [of
      "\<lparr>messages = [], input = ''hi'', chatIsLoading = False, attachedImage = None\<rparr>"
      "\<lparr>imageBase64 = None,
       fetchResult = Responded \<lparr>ok = True, statusText = ''OK'',
          body = Some ([''He'', ''l'', ''lo wo'', ''rld''], EndOfStream), json = JsonRejected\<rparr>\<rparr>"
      "\<lparr>ok = True, statusText = ''OK'',
          body = Some ([''He'', ''l'', ''lo wo'', ''rld''], EndOfStream), json = JsonRejected\<rparr>"
      "[''He'', ''l'', ''lo wo'', ''rld'']"]
  by (simp add: trim_def isSpace_def)

lemma thrownMessage_contains:
  assumes "json response = JsonValue (ErrorString X)"
  shows "\<exists>pre post. thrownMessage response = pre @ X @ post"
proof (cases X)
  case Nil
  then have "thrownMessage response = [] @ X @ thrownMessage response" by simp
  then show ?thesis by blast
next
  case (Cons c cs)
  with assms have "thrownMessage response = [] @ X @ []" by (simp add: thrownMessage_def)
  then show ?thesis by blast
qed

text \<open>
  C7: a request that is sent and answered with a non-success status and the JSON body
  \<^verbatim>\<open>{error: "X"}\<close> adds to the conversation the user's message and exactly one model
  message, whose text contains \<open>X\<close> (it is \<^verbatim>\<open>Sorry, an error occurred: X\<close> when \<open>X\<close>
  is not empty); the exception is thrown before the first read of the stream, so that no
  streamed message exists.
\<close>

theorem error_response_message:
  assumes "\<not> ((trim (input chat) = [] \<and> attachedImage chat = None) \<or> chatIsLoading chat)"
    and "attachedImage chat \<noteq> None \<longrightarrow> imageBase64 net \<noteq> None"
    and "fetchResult net = Responded response"
    and "\<not> ok response"
    and "json response = JsonValue (ErrorString X)"
  shows "(\<exists>pre post.
           messages (handleSendMessage net chat) =
             messages chat @
               [\<lparr>role = User, msgText = trim (input chat),
                  image = map_option snd (attachedImage chat)\<rparr>,
                \<lparr>role = Model, msgText = pre @ X @ post, image = None\<rparr>])
         \<and> (X \<noteq> [] \<longrightarrow>
              messages (handleSendMessage net chat) =
                messages chat @
                  [\<lparr>role = User, msgText = trim (input chat),
                     image = map_option snd (attachedImage chat)\<rparr>,
                   \<lparr>role = Model, msgText = ''Sorry, an error occurred: '' @ X,
                      image = None\<rparr>])"
proof -
  let ?user = "\<lparr>role = User, msgText = trim (input chat),
                 image = map_option snd (attachedImage chat)\<rparr>"
  have "tryBlock net (attachedImage chat) (messages chat @ [?user]) =
          (messages chat @ [?user], Some (thrownMessage response))"
    using assms(2-4) by (auto simp: tryBlock_def split: option.splits)
  with assms(1) have m: "messages (handleSendMessage net chat) =
      messages chat @ [?user, \<lparr>role = Model,
         msgText = ''Sorry, an error occurred: '' @ thrownMessage response, image = None\<rparr>]"
    by (simp add: handleSendMessage_sends)
  from thrownMessage_contains [OF assms(5)] obtain pre post
    where "thrownMessage response = pre @ X @ post" by blast
  then have "''Sorry, an error occurred: '' @ thrownMessage response =
     (''Sorry, an error occurred: '' @ pre) @ X @ post" by simp
  with m have contains: "\<exists>pre post.
      messages (handleSendMessage net chat) =
        messages chat @ [?user, \<lparr>role = Model, msgText = pre @ X @ post, image = None\<rparr>]"
    by metis
  have "thrownMessage response = X" if "X \<noteq> []"
    using that assms(5) by (cases X) (simp_all add: thrownMessage_def)
  with m contains show ?thesis by simp
qed

theorem error_response_message_witness:
  "\<exists>pre post.
     messages (handleSendMessage
        \<lparr>imageBase64 = None,
         fetchResult = Responded \<lparr>ok = False, statusText = ''Internal Server Error'',
            body = Some ([''{error: X}''], EndOfStream), json = JsonValue (ErrorString ''X'')\<rparr>\<rparr>
        \<lparr>messages = [], input = ''hi'', chatIsLoading = False, attachedImage = None\<rparr>) =
     [\<lparr>role = User, msgText = ''hi'', image = None\<rparr>,
      \<lparr>role = Model, msgText = pre @ ''X'' @ post, image = None\<rparr>]"
  using error_response_message [of
      "\<lparr>messages = [], input = ''hi'', chatIsLoading = False, attachedImage = None\<rparr>"
      "\<lparr>imageBase64 = None,
         fetchResult = Responded \<lparr>ok = False, statusText = ''Internal Server Error'',
            body = Some ([''{error: X}''], EndOfStream), json = JsonValue (ErrorString ''X'')\<rparr>\<rparr>"
      "\<lparr>ok = False, statusText = ''Internal Server Error'',
            body = Some ([''{error: X}''], EndOfStream), json = JsonValue (ErrorString ''X'')\<rparr>"
      "''X''", THEN conjunct1]
  by (simp add: trim_def isSpace_def)

subsection \<open>Promises and the directory reader\<close>

lemma readAll_batches_acc:
  "\<forall>b \<in> set batches. b \<noteq> [] \<Longrightarrow>
   readAllDirectoryEntries (map Entries batches @ Entries [] # rest) acc =
     Fulfilled (acc @ concat batches)"
proof (induction batches arbitrary: acc)
  case Nil
  show ?case by simp
next
  case (Cons b batches)
  then have "b \<noteq> []" and "\<forall>b \<in> set batches. b \<noteq> []" by simp_all
  then show ?case using Cons.IH [of "acc @ b"] by simp
qed

text \<open>
  The two descriptions of \<^verbatim>\<open>Promise.all\<close> agree: inputs that are all fulfilled give
  their values in the order of the inputs, in whatever order they settle, provided each
  settles; a rejected input keeps the whole from being fulfilled.
\<close>

lemma promise_all_fulfilled: "promise_all (map Fulfilled vs) = Fulfilled vs"
  by (induction vs) simp_all

lemma filled_slots:
  assumes "list_all (\<lambda>v. v \<noteq> None) vals" and "length vals = length vs"
    and "\<forall>j<length vs. vals ! j = None \<or> vals ! j = Some (vs ! j)"
  shows "map the vals = vs"
proof (rule nth_equalityI)
  show "length (map the vals) = length vs" using assms(2) by simp
next
  fix j assume "j < length (map the vals)"
  then have j: "j < length vs" using assms(2) by simp
  with assms(1,2) have "vals ! j \<noteq> None" by (simp add: list_all_length)
  with assms(3) j have "vals ! j = Some (vs ! j)" by auto
  with j assms(2) show "map the vals ! j = vs ! j" by simp
qed

lemma settle_all_fulfilled:
  assumes "length ps = length vs" and "\<forall>j<length vs. ps ! j = Fulfilled (vs ! j)"
    and "length vals = length vs"
    and "\<forall>j<length vs. vals ! j = None \<or> vals ! j = Some (vs ! j)"
    and "\<forall>j<length vs. vals ! j = None \<longrightarrow> j \<in> set order"
  shows "settle_all ps order vals = Fulfilled vs"
  using assms(3-5)
proof (induction order arbitrary: vals)
  case Nil
  have "list_all (\<lambda>v. v \<noteq> None) vals"
    unfolding list_all_length using Nil.prems(1,3) by auto
  moreover from this have "map the vals = vs"
    using Nil.prems(1,2) by (rule filled_slots)
  ultimately show ?case by simp
next
  case (Cons i order)
  show ?case
  proof (cases "list_all (\<lambda>v. v \<noteq> None) vals")
    case True
    then have "map the vals = vs"
      using Cons.prems(1,2) by (rule filled_slots)
    with True show ?thesis by simp
  next
    case False
    show ?thesis
    proof (cases "i < length vs")
      case True
      have "settle_all ps order (vals[i := Some (vs ! i)]) = Fulfilled vs"
      proof (rule Cons.IH)
        show "length (vals[i := Some (vs ! i)]) = length vs" using Cons.prems(1) by simp
        show "\<forall>j<length vs. vals[i := Some (vs ! i)] ! j = None \<or>
                vals[i := Some (vs ! i)] ! j = Some (vs ! j)"
          using Cons.prems(1,2) True by (simp add: nth_list_update)
        show "\<forall>j<length vs. vals[i := Some (vs ! i)] ! j = None \<longrightarrow> j \<in> set order"
          using Cons.prems(1,3) True by (auto simp: nth_list_update)
      qed
      with False True assms(1,2) show ?thesis by simp
    next
      case out: False
      have "settle_all ps order vals = Fulfilled vs"
      proof (rule Cons.IH)
        show "length vals = length vs" by (rule Cons.prems(1))
        show "\<forall>j<length vs. vals ! j = None \<or> vals ! j = Some (vs ! j)" by (rule Cons.prems(2))
        show "\<forall>j<length vs. vals ! j = None \<longrightarrow> j \<in> set order"
          using Cons.prems(3) out by auto
      qed
      with False out assms(1) show ?thesis by simp
    qed
  qed
qed

lemma promise_all_settling_fulfilled:
  assumes "length ps = length vs" and "\<forall>j<length vs. ps ! j = Fulfilled (vs ! j)"
    and "{..<length vs} \<subseteq> set order"
  shows "promise_all_settling ps order = Fulfilled vs"
  unfolding promise_all_settling_def
proof (rule settle_all_fulfilled [OF assms(1,2)])
  show "length (replicate (length ps) None) = length vs" using assms(1) by simp
  show "\<forall>j<length vs. replicate (length ps) None ! j = None \<or>
          replicate (length ps) None ! j = Some (vs ! j)"
    using assms(1) by simp
  show "\<forall>j<length vs. replicate (length ps) None ! j = None \<longrightarrow> j \<in> set order"
    using assms(3) by auto
qed

lemma promise_all_rejected: "Rejected e \<in> set ps \<Longrightarrow> \<exists>e'. promise_all ps = Rejected e'"
proof (induction ps rule: promise_all.induct)
  case 1
  then show ?case by simp
next
  case (2 e' ps)
  then show ?case by simp
next
  case (3 v ps)
  then obtain e' where "promise_all ps = Rejected e'" by auto
  then show ?case by simp
next
  case (4 ps)
  then obtain e' where "promise_all ps = Rejected e'" by auto
  then show ?case by simp
qed

lemma settle_all_not_fulfilled:
  assumes "i < length ps" "ps ! i = Rejected e" "length vals = length ps" "vals ! i = None"
  shows "settle_all ps order vals \<noteq> Fulfilled vs"
  using assms(3,4)
proof (induction order arbitrary: vals)
  case Nil
  with assms(1) have "\<not> list_all (\<lambda>v. v \<noteq> None) vals" by (auto simp: list_all_length)
  then show ?case by simp
next
  case (Cons k order)
  with assms(1) have no: "\<not> list_all (\<lambda>v. v \<noteq> None) vals" by (auto simp: list_all_length)
  show ?case
  proof (cases "k < length ps")
    case True
    show ?thesis
    proof (cases "ps ! k")
      case (Fulfilled v)
      with assms(2) have "k \<noteq> i" by auto
      have "settle_all ps order (vals[k := Some v]) \<noteq> Fulfilled vs"
      proof (rule Cons.IH)
        show "length (vals[k := Some v]) = length ps" using Cons.prems(1) by simp
        show "vals[k := Some v] ! i = None" using Cons.prems(2) \<open>k \<noteq> i\<close> by simp
      qed
      with no True Fulfilled show ?thesis by simp
    next
      case (Rejected e')
      with no True show ?thesis by simp
    next
      case Pending
      have "settle_all ps order vals \<noteq> Fulfilled vs"
        using Cons.prems by (rule Cons.IH)
      with no True Pending show ?thesis by simp
    qed
  next
    case False
    have "settle_all ps order vals \<noteq> Fulfilled vs"
      using Cons.prems by (rule Cons.IH)
    with no False show ?thesis by simp
  qed
qed

lemma promise_all_settling_not_fulfilled:
  assumes "i < length ps" "ps ! i = Rejected e"
  shows "promise_all_settling ps order \<noteq> Fulfilled vs"
  unfolding promise_all_settling_def
  by (rule settle_all_not_fulfilled [OF assms]) (use assms in auto)

subsection \<open>Ingestion\<close>

text \<open>
  C4: a reader that answers with a finite sequence of non-empty batches and then with the
  empty batch makes \<open>readAllDirectoryEntries\<close> resolve with the concatenation of the
  batches, in the order of the answers; whatever the reader would answer after the empty
  batch is not asked for.
\<close>

theorem readAllDirectoryEntries_concat:
  assumes "\<forall>b \<in> set batches. b \<noteq> []"
  shows "readAllDirectoryEntries (map Entries batches @ Entries [] # rest) [] =
           Fulfilled (concat batches)"
  using readAll_batches_acc [OF assms, of rest "[]"] by simp

theorem readAllDirectoryEntries_concat_witness:
  "[OtherEntry, Null] \<noteq> [] \<and> [OtherEntry] \<noteq> [] \<and>
   readAllDirectoryEntries [Entries [OtherEntry, Null], Entries [OtherEntry], Entries []] [] =
     Fulfilled [OtherEntry, Null, OtherEntry]"
  using readAllDirectoryEntries_concat [of "[[OtherEntry, Null], [OtherEntry]]" "[]"] by simp

lemma filePromises_fulfilled:
  assumes "\<forall>item \<in> set items. bytes (fst item) \<noteq> None"
  shows "\<forall>j<length (map (\<lambda>item. makeRecord nts t item (the (bytes (fst item)))) items).
           map (filePromise nts t) items ! j =
             Fulfilled (map (\<lambda>item. makeRecord nts t item (the (bytes (fst item)))) items ! j)"
proof (intro allI impI)
  fix j
  assume "j < length (map (\<lambda>item. makeRecord nts t item (the (bytes (fst item)))) items)"
  then have j: "j < length items" by simp
  then have "items ! j \<in> set items" by simp
  with assms obtain result where "bytes (fst (items ! j)) = Some result" by auto
  with j show "map (filePromise nts t) items ! j =
      Fulfilled (map (\<lambda>item. makeRecord nts t item (the (bytes (fst item)))) items ! j)"
    by (simp add: filePromise_def)
qed

lemma empty_batch:
  "handleFileProcessing numberToString [] order app = app\<lparr>isLoading := False\<rparr>"
  by (simp add: handleFileProcessing_def)

text \<open>
  C5, as stated (for every list of items the resulting working set has one record per
  item), fails for the empty list: the guard at the head of \<open>handleFileProcessing\<close>
  returns before anything is set, and the working set stays what it was.
\<close>

theorem working_set_order_counterexample:
  "processedFiles (handleFileProcessing decimalText [] []
      \<lparr>processedFiles = [\<lparr>fileId = ''a.txt-0-1'', originalPath = ''a.txt'', newPath = ''a.ts'',
                           content = [65], originalType = ''txt'', newType = ''ts''\<rparr>],
       view = FilesView, targetConversionType = ''ts'', isLoading = True, alerts = [],
       localStorage = \<lparr>entries = Map.empty, accepts = (\<lambda>m k v. True)\<rparr>\<rparr>) =
   [\<lparr>fileId = ''a.txt-0-1'', originalPath = ''a.txt'', newPath = ''a.ts'',
      content = [65], originalType = ''txt'', newType = ''ts''\<rparr>]"
  by (simp add: handleFileProcessing_def)

text \<open>
  C5, amended: for every non-empty list of items whose reads all succeed, and for every
  order in which the reads complete, the resulting working set is the list of the items'
  records in the order of the input list; for the empty list the working set is left as
  it was.
\<close>

theorem working_set_order:
  "(items \<noteq> [] \<and> (\<forall>item \<in> set items. bytes (fst item) \<noteq> None)
      \<and> {..<length items} \<subseteq> set order \<longrightarrow>
      processedFiles (handleFileProcessing numberToString items order app) =
        map (\<lambda>item. makeRecord numberToString (targetConversionType app) item
                      (the (bytes (fst item)))) items
      \<and> map originalPath (processedFiles (handleFileProcessing numberToString items order app)) =
        map snd items)
   \<and> processedFiles (handleFileProcessing numberToString [] order app) = processedFiles app"
proof (intro conjI impI)
  assume a: "items \<noteq> [] \<and> (\<forall>item \<in> set items. bytes (fst item) \<noteq> None)
      \<and> {..<length items} \<subseteq> set order"
  let ?t = "targetConversionType app"
  let ?vs = "map (\<lambda>item. makeRecord numberToString ?t item (the (bytes (fst item)))) items"
  have "promise_all_settling (map (filePromise numberToString ?t) items) order = Fulfilled ?vs"
  proof (rule promise_all_settling_fulfilled)
    show "length (map (filePromise numberToString ?t) items) = length ?vs" by simp
    show "\<forall>j<length ?vs. map (filePromise numberToString ?t) items ! j = Fulfilled (?vs ! j)"
      using a by (intro filePromises_fulfilled) simp
    show "{..<length ?vs} \<subseteq> set order" using a by simp
  qed
  with a show r: "processedFiles (handleFileProcessing numberToString items order app) = ?vs"
    by (simp add: handleFileProcessing_def setProcessedFiles_def)
  have "map originalPath ?vs = map snd items"
    by (simp add: makeRecord_def Let_def)
  with r show "map originalPath
      (processedFiles (handleFileProcessing numberToString items order app)) = map snd items"
    by simp
next
  show "processedFiles (handleFileProcessing numberToString [] order app) = processedFiles app"
    by (simp add: empty_batch)
qed

theorem working_set_order_witness:
  "[(\<lparr>name = ''a.txt'', fsize = 1, lastModified = 7, bytes = Some [65]\<rparr>, ''d/a.txt''),
    (\<lparr>name = ''b.js'', fsize = 1, lastModified = 8, bytes = Some [66]\<rparr>, ''d/b.js'')] \<noteq> []
   \<and> {..<2} \<subseteq> set [1, 0 :: nat]
   \<and> map originalPath (processedFiles (handleFileProcessing decimalText
        [(\<lparr>name = ''a.txt'', fsize = 1, lastModified = 7, bytes = Some [65]\<rparr>, ''d/a.txt''),
         (\<lparr>name = ''b.js'', fsize = 1, lastModified = 8, bytes = Some [66]\<rparr>, ''d/b.js'')]
        [1, 0]
        \<lparr>processedFiles = [], view = UploadView, targetConversionType = ''ts'',
         isLoading = True, alerts = [],
         localStorage = \<lparr>entries = Map.empty, accepts = (\<lambda>m k v. True)\<rparr>\<rparr>)) =
      [''d/a.txt'', ''d/b.js'']"
  using working_set_order [of
        "[(\<lparr>name = ''a.txt'', fsize = 1, lastModified = 7, bytes = Some [65]\<rparr>, ''d/a.txt''),
          (\<lparr>name = ''b.js'', fsize = 1, lastModified = 8, bytes = Some [66]\<rparr>, ''d/b.js'')]"
        "[1, 0]" decimalText
        "\<lparr>processedFiles = [], view = UploadView, targetConversionType = ''ts'',
          isLoading = True, alerts = [],
          localStorage = \<lparr>entries = Map.empty, accepts = (\<lambda>m k v. True)\<rparr>\<rparr>",
        THEN conjunct1]
  by (simp add: lessThan_Suc numeral_2_eq_2 makeRecord_def Let_def)

text \<open>
  C6: when the read of at least one item of a batch fails, \<^verbatim>\<open>Promise.all\<close> is not
  fulfilled, in whatever order the reads settle; no record of the batch is set, and the
  working set and the store are those from before the batch.
\<close>

theorem failed_read_fails_batch:
  assumes "\<exists>item \<in> set items. bytes (fst item) = None"
  shows "(\<forall>newFiles. promise_all_settling
              (map (filePromise numberToString (targetConversionType app)) items) order
                \<noteq> Fulfilled newFiles)
         \<and> processedFiles (handleFileProcessing numberToString items order app) =
             processedFiles app
         \<and> localStorage (handleFileProcessing numberToString items order app) =
             localStorage app"
proof -
  let ?ps = "map (filePromise numberToString (targetConversionType app)) items"
  from assms obtain i where i: "i < length items" "bytes (fst (items ! i)) = None"
    by (auto simp: in_set_conv_nth)
  then have "i < length ?ps" "?ps ! i = Rejected (fst (items ! i))"
    by (simp_all add: filePromise_def)
  then have no: "\<And>newFiles. promise_all_settling ?ps order \<noteq> Fulfilled newFiles"
    by (rule promise_all_settling_not_fulfilled)
  from i have "items \<noteq> []" by auto
  with no have
      "processedFiles (handleFileProcessing numberToString items order app) = processedFiles app"
      "localStorage (handleFileProcessing numberToString items order app) = localStorage app"
    by (cases "promise_all_settling ?ps order"; simp add: handleFileProcessing_def)+
  with no show ?thesis by simp
qed

theorem failed_read_fails_batch_witness:
  "(\<exists>item \<in> set [(\<lparr>name = ''a.txt'', fsize = 1, lastModified = 7, bytes = Some [65]\<rparr>, ''a.txt''),
                     (\<lparr>name = ''b.js'', fsize = 1, lastModified = 8, bytes = None\<rparr>, ''b.js'')].
      bytes (fst item) = None)
   \<and> processedFiles (handleFileProcessing decimalText
        [(\<lparr>name = ''a.txt'', fsize = 1, lastModified = 7, bytes = Some [65]\<rparr>, ''a.txt''),
         (\<lparr>name = ''b.js'', fsize = 1, lastModified = 8, bytes = None\<rparr>, ''b.js'')]
        [0, 1]
        \<lparr>processedFiles = [\<lparr>fileId = ''c.md-0-1'', originalPath = ''c.md'', newPath = ''c.ts'',
                             content = [67], originalType = ''md'', newType = ''ts''\<rparr>],
         view = FilesView, targetConversionType = ''ts'', isLoading = True, alerts = [],
         localStorage = \<lparr>entries = Map.empty, accepts = (\<lambda>m k v. True)\<rparr>\<rparr>) =
      [\<lparr>fileId = ''c.md-0-1'', originalPath = ''c.md'', newPath = ''c.ts'',
         content = [67], originalType = ''md'', newType = ''ts''\<rparr>]"
  using failed_read_fails_batch [of
        "[(\<lparr>name = ''a.txt'', fsize = 1, lastModified = 7, bytes = Some [65]\<rparr>, ''a.txt''),
          (\<lparr>name = ''b.js'', fsize = 1, lastModified = 8, bytes = None\<rparr>, ''b.js'')]"
        decimalText
        "\<lparr>processedFiles = [\<lparr>fileId = ''c.md-0-1'', originalPath = ''c.md'', newPath = ''c.ts'',
                             content = [67], originalType = ''md'', newType = ''ts''\<rparr>],
         view = FilesView, targetConversionType = ''ts'', isLoading = True, alerts = [],
         localStorage = \<lparr>entries = Map.empty, accepts = (\<lambda>m k v. True)\<rparr>\<rparr>"
        "[0, 1]"]
  by simp

text \<open>
  What the two branches of \<open>extractFilesFromDataTransfer\<close> exclude: the hierarchical
  branch the entries with a hidden leaf name, the flat branch the hidden names and the
  files of size zero.
\<close>

lemma hierarchical_excludes_hidden:
  assumes "dt_items dataTransfer \<noteq> []" and "webkitGetAsEntry dataTransfer"
    and "extractFilesFromDataTransfer dataTransfer = Fulfilled fs"
  shows "\<forall>f \<in> set fs. \<not> startsWith (last (split CHR ''/'' (snd f))) ''.''"
  using assms by (auto simp: extractFilesFromDataTransfer_def hiddenPath_def Let_def split: promise.splits)

lemma flat_excludes_hidden_and_empty:
  assumes "dt_items dataTransfer = [] \<or> \<not> webkitGetAsEntry dataTransfer"
    and "extractFilesFromDataTransfer dataTransfer = Fulfilled fs"
  shows "\<forall>f \<in> set fs. snd f = name (fst f) \<and> \<not> startsWith (name (fst f)) ''.'' \<and> 0 < fsize (fst f)"
  using assms by (auto simp: extractFilesFromDataTransfer_def)

text \<open>
  C3 at a drop of one file entry of size zero: the hierarchical branch, which filters on
  the leaf name only, returns the entry; the flat branch, given the same file, excludes
  it.
\<close>

theorem zero_byte_entry_kept:
  "extractFilesFromDataTransfer
     \<lparr>dt_items = [FileEntry ''/empty.txt''
                    (Some \<lparr>name = ''empty.txt'', fsize = 0, lastModified = 0, bytes = Some []\<rparr>)],
      webkitGetAsEntry = True,
      dt_files = [\<lparr>name = ''empty.txt'', fsize = 0, lastModified = 0, bytes = Some []\<rparr>]\<rparr> =
   Fulfilled [(\<lparr>name = ''empty.txt'', fsize = 0, lastModified = 0, bytes = Some []\<rparr>, ''empty.txt'')]
   \<and>
   extractFilesFromDataTransfer
     \<lparr>dt_items = [FileEntry ''/empty.txt''
                    (Some \<lparr>name = ''empty.txt'', fsize = 0, lastModified = 0, bytes = Some []\<rparr>)],
      webkitGetAsEntry = False,
      dt_files = [\<lparr>name = ''empty.txt'', fsize = 0, lastModified = 0, bytes = Some []\<rparr>]\<rparr> =
   Fulfilled []"
  by (simp add: extractFilesFromDataTransfer_def hiddenPath_def)

subsection \<open>Base64 and the persistence shim\<close>

lemma b64chars_distinct: "distinct b64chars"
  by (simp add: b64chars_def)

lemma length_b64chars: "length b64chars = 64"
  by (simp add: b64chars_def)

lemma b64chars_plain: "c \<in> set b64chars \<Longrightarrow> \<not> asciiWhitespace c \<and> c \<noteq> CHR ''=''"
  by (auto simp: b64chars_def asciiWhitespace_def)

lemma index_of_nth: "distinct xs \<Longrightarrow> i < length xs \<Longrightarrow> index_of (xs ! i) xs = i"
proof (induction xs arbitrary: i)
  case Nil
  then show ?case by simp
next
  case (Cons x xs)
  then show ?case by (cases i) auto
qed

lemma b64index_b64char: "i < 64 \<Longrightarrow> b64index (b64char i) = i"
  unfolding b64index_def b64char_def
  by (rule index_of_nth [OF b64chars_distinct]) (simp add: length_b64chars)

lemma b64char_in: "i < 64 \<Longrightarrow> b64char i \<in> set b64chars"
  unfolding b64char_def by (rule nth_mem) (simp add: length_b64chars)

lemma sextets_bound: "\<forall>x \<in> set xs. x < 256 \<Longrightarrow> \<forall>s \<in> set (sextets xs). s < 64"
proof (induction xs rule: sextets.induct)
  case (1 a b c rest)
  then have "a < 256" "b < 256" "c < 256" by simp_all
  then have "a div 4 < 64" "(a mod 4) * 16 + b div 16 < 64" "(b mod 16) * 4 + c div 64 < 64"
    "c mod 64 < 64" by arith+
  with 1 show ?case by simp
next
  case (2 a b)
  then have "a < 256" "b < 256" by simp_all
  then have "a div 4 < 64" "(a mod 4) * 16 + b div 16 < 64" "(b mod 16) * 4 < 64" by arith+
  then show ?case by simp
next
  case (3 a)
  then have "a < 256" by simp
  then have "a div 4 < 64" "(a mod 4) * 16 < 64" by arith+
  then show ?case by simp
next
  case 4
  then show ?case by simp
qed

lemma octets_sextets: "\<forall>x \<in> set xs. x < 256 \<Longrightarrow> octets (sextets xs) = xs"
proof (induction xs rule: sextets.induct)
  case (1 a b c rest)
  then have "b < 256" "c < 256" by simp_all
  then have b: "b div 16 < 16" and c: "c div 64 < 4" by arith+
  have "a div 4 * 4 + ((a mod 4) * 16 + b div 16) div 16 = a"
    using b by simp
  moreover have "(((a mod 4) * 16 + b div 16) mod 16) * 16 + ((b mod 16) * 4 + c div 64) div 4 = b"
    using b c by simp
  moreover have "(((b mod 16) * 4 + c div 64) mod 4) * 64 + c mod 64 = c"
    using c by simp
  moreover have "octets (sextets rest) = rest" using 1 by simp
  ultimately show ?case by (simp del: div_mult_self3 div_mult_self4 mod_mult_self3 mod_mult_self4)
next
  case (2 a b)
  then have "b < 256" by simp
  then have b: "b div 16 < 16" by arith
  have "a div 4 * 4 + ((a mod 4) * 16 + b div 16) div 16 = a"
    using b by simp
  moreover have "(((a mod 4) * 16 + b div 16) mod 16) * 16 + ((b mod 16) * 4) div 4 = b"
    using b by simp
  ultimately show ?case by (simp del: div_mult_self3 div_mult_self4 mod_mult_self3 mod_mult_self4)
next
  case (3 a)
  have "a div 4 * 4 + ((a mod 4) * 16) div 16 = a" by simp
  then show ?case by simp
next
  case 4
  then show ?case by simp
qed

lemma length_sextets_pad: "(length (sextets xs) + (3 - length xs mod 3) mod 3) mod 4 = 0"
proof (induction xs rule: sextets.induct)
  case (1 a b c rest)
  have "length (a # b # c # rest) mod 3 = length rest mod 3" by simp
  with 1 show ?case by (simp add: add.assoc)
qed simp_all

lemma length_sextets_mod: "length (sextets xs) mod 4 \<noteq> 1"
proof (induction xs rule: sextets.induct)
  case (1 a b c rest)
  then show ?case by simp
qed simp_all

lemma removePadding_padded:
  assumes "CHR ''='' \<notin> set cs" and "(length cs + k) mod 4 = 0" and "k \<le> 2"
  shows "removePadding (cs @ replicate k CHR ''='') = cs"
proof -
  have last_cs: "cs \<noteq> [] \<Longrightarrow> last cs \<noteq> CHR ''=''"
    using assms(1) last_in_set by metis
  consider "k = 0" | "k = 1" | "k = 2" using assms(3) by linarith
  then show ?thesis
  proof cases
    case 1
    with last_cs show ?thesis by (auto simp: removePadding_def)
  next
    case 2
    with assms(2) have "cs \<noteq> []" by auto
    with 2 assms(2) last_cs show ?thesis by (simp add: removePadding_def)
  next
    case 3
    then have "replicate k CHR ''='' = [CHR ''='', CHR ''='']" by (simp add: numeral_2_eq_2)
    with 3 assms(2) show ?thesis by (simp add: removePadding_def butlast_append)
  qed
qed

lemma atob_btoa: "atob (btoa binary) = Some binary"
proof -
  define xs :: "nat list" where "xs = map of_char binary"
  define cs where "cs = map b64char (sextets xs)"
  define k where "k = (3 - length binary mod 3) mod 3"
  have xs: "\<forall>x \<in> set xs. x < 256" by (simp add: xs_def nat_of_char_less_256)
  then have sx: "\<forall>s \<in> set (sextets xs). s < 64" by (rule sextets_bound)
  then have alpha: "\<forall>c \<in> set cs. c \<in> set b64chars" by (simp add: cs_def b64char_in)
  have b: "btoa binary = cs @ replicate k CHR ''=''"
    by (simp add: btoa_def padding_def cs_def xs_def k_def)
  have "filter (\<lambda>c. \<not> asciiWhitespace c) (btoa binary) = btoa binary"
    unfolding b using alpha b64chars_plain by (auto simp: filter_id_conv asciiWhitespace_def)
  moreover have "removePadding (cs @ replicate k CHR ''='') = cs"
  proof (rule removePadding_padded)
    show "CHR ''='' \<notin> set cs" using alpha b64chars_plain by blast
    show "(length cs + k) mod 4 = 0"
      using length_sextets_pad [of xs] by (simp add: cs_def k_def xs_def)
    show "k \<le> 2" unfolding k_def by arith
  qed
  ultimately have d: "removePadding (filter (\<lambda>c. \<not> asciiWhitespace c) (btoa binary)) = cs"
    by (simp add: b)
  have len: "length cs mod 4 \<noteq> 1" using length_sextets_mod [of xs] by (simp add: cs_def)
  have ok: "\<not> list_ex (\<lambda>c. c \<notin> set b64chars) cs" using alpha by (simp add: list_ex_iff)
  have "map b64index cs = sextets xs"
    unfolding cs_def using sx by (simp add: map_idI b64index_b64char)
  then have "octets (map b64index cs) = xs" using xs by (simp add: octets_sextets)
  moreover have "map char_of xs = binary" by (simp add: xs_def map_idI)
  ultimately show ?thesis using len ok by (simp add: atob_def d Let_def)
qed

lemma binary_string_of_buffer:
  "foldl (\<lambda>binary b. binary @ [char_of (unat b)]) acc buffer =
     acc @ map (\<lambda>b. char_of (unat b)) buffer"
  by (induction buffer arbitrary: acc) simp_all

lemma byte_of_char_of_byte: "(of_nat (of_char (char_of (unat (w :: byte)) :: char)) :: byte) = w"
  using unsigned_less [of w, where 'a = nat] by simp

lemma bytes_of_binary_string:
  "map (\<lambda>c. of_nat (of_char c)) (map (\<lambda>b. char_of (unat b)) buffer) = (buffer :: byte list)"
  by (induction buffer) (simp_all only: list.map byte_of_char_of_byte)

lemma base64_roundtrip: "base64ToArrayBuffer (arrayBufferToBase64 buffer) = Some buffer"
proof -
  have "arrayBufferToBase64 buffer = btoa (map (\<lambda>b. char_of (unat b)) buffer)"
    by (simp add: arrayBufferToBase64_def binary_string_of_buffer)
  then show ?thesis
    by (simp only: base64ToArrayBuffer_def atob_btoa option.case bytes_of_binary_string)
qed

lemma those_all_Some: "those_all (map Some xs) = Some xs"
  by (induction xs) simp_all

lemma deserialize_serialize: "deserializeFile (serializeFile file) = Some file"
  by (simp add: deserializeFile_def serializeFile_def withContent_def base64_roundtrip)

lemma deserialize_serialized: "map deserializeFile (map serializeFile fs) = map Some fs"
  by (induction fs) (simp_all add: deserialize_serialize)

lemma save_empty:
  "saveStateToLocalStorage [] store = removeItem ''fileConverterState'' store"
  by (simp add: saveStateToLocalStorage_def)

lemma save_accepted:
  assumes "fs \<noteq> []"
    and "accepts store (entries store) ''fileConverterState'' (FilesJSON (map serializeFile fs))"
  shows "saveStateToLocalStorage fs store =
           store\<lparr>entries := (entries store)(''fileConverterState'' \<mapsto>
                     FilesJSON (map serializeFile fs))\<rparr>"
  using assms by (simp add: saveStateToLocalStorage_def setItem_def)

lemma save_refused:
  assumes "fs \<noteq> []"
    and "\<not> accepts store (entries store) ''fileConverterState''
            (FilesJSON (map serializeFile fs))"
  shows "saveStateToLocalStorage fs store = store"
  using assms by (simp add: saveStateToLocalStorage_def setItem_def)

lemma load_serialized:
  assumes "entries store ''fileConverterState'' = Some (FilesJSON (map serializeFile fs))"
  shows "loadStateFromLocalStorage store = fs"
proof -
  have "those_all (map deserializeFile (map serializeFile fs)) = Some fs"
    by (simp only: deserialize_serialized those_all_Some)
  with assms show ?thesis
    by (simp only: loadStateFromLocalStorage_def getItem_def option.case stored.case)
qed

lemma load_removed:
  "loadStateFromLocalStorage (removeItem ''fileConverterState'' store) = []"
  by (simp add: loadStateFromLocalStorage_def getItem_def removeItem_def)

text \<open>
  C9, as stated (whenever the working set is not empty its serialized state is written
  under the key), fails where the store refuses the write: \<^verbatim>\<open>setItem\<close> throws, the
  \<^verbatim>\<open>catch\<close> logs the error, and nothing is under the key.
\<close>

theorem working_set_key_counterexample:
  "entries (saveStateToLocalStorage
        [\<lparr>fileId = ''a.txt-0-1'', originalPath = ''a.txt'', newPath = ''a.ts'',
           content = [65], originalType = ''txt'', newType = ''ts''\<rparr>]
        \<lparr>entries = Map.empty, accepts = (\<lambda>m k v. False)\<rparr>) ''fileConverterState'' = None"
  by (simp add: saveStateToLocalStorage_def setItem_def)

text \<open>
  C9, amended: saving an empty working set removes the key \<^verbatim>\<open>fileConverterState\<close>
  from the store, so that after \<open>handleClear\<close> the store has no value under it (no
  empty array); every change of the working set saves it; saving a non-empty working set
  to a store that accepts the write puts under the key a list of serialized files that
  deserializes to the working set; and where the store refuses the write, the store is
  left as it was.
\<close>

theorem working_set_key:
  "entries (saveStateToLocalStorage [] store) ''fileConverterState'' = None
   \<and> entries (localStorage (handleClear app)) ''fileConverterState'' = None
   \<and> localStorage (setProcessedFiles fs app) = saveStateToLocalStorage fs (localStorage app)
   \<and> (fs \<noteq> [] \<and> accepts store (entries store) ''fileConverterState''
                     (FilesJSON (map serializeFile fs)) \<longrightarrow>
        (\<exists>serializableFiles.
           entries (saveStateToLocalStorage fs store) ''fileConverterState'' =
             Some (FilesJSON serializableFiles)
           \<and> map deserializeFile serializableFiles = map Some fs))
   \<and> (fs \<noteq> [] \<and> \<not> accepts store (entries store) ''fileConverterState''
                       (FilesJSON (map serializeFile fs)) \<longrightarrow>
        saveStateToLocalStorage fs store = store)"
proof (intro conjI impI)
  show "entries (saveStateToLocalStorage [] store) ''fileConverterState'' = None"
    by (simp add: save_empty removeItem_def)
  show "entries (localStorage (handleClear app)) ''fileConverterState'' = None"
    by (simp add: handleClear_def setProcessedFiles_def save_empty removeItem_def)
  show "localStorage (setProcessedFiles fs app) = saveStateToLocalStorage fs (localStorage app)"
    by (simp add: setProcessedFiles_def)
next
  assume "fs \<noteq> [] \<and> accepts store (entries store) ''fileConverterState''
                     (FilesJSON (map serializeFile fs))"
  then have "entries (saveStateToLocalStorage fs store) ''fileConverterState'' =
      Some (FilesJSON (map serializeFile fs))"
    by (simp add: save_accepted)
  then show "\<exists>serializableFiles.
           entries (saveStateToLocalStorage fs store) ''fileConverterState'' =
             Some (FilesJSON serializableFiles)
           \<and> map deserializeFile serializableFiles = map Some fs"
    using deserialize_serialized by blast
next
  assume "fs \<noteq> [] \<and> \<not> accepts store (entries store) ''fileConverterState''
                       (FilesJSON (map serializeFile fs))"
  then show "saveStateToLocalStorage fs store = store"
    by (simp add: save_refused)
qed

theorem working_set_key_witness:
  "[\<lparr>fileId = ''a.txt-0-1'', originalPath = ''a.txt'', newPath = ''a.ts'',
      content = [65 :: byte], originalType = ''txt'', newType = ''ts''\<rparr>] \<noteq> []
   \<and> (\<exists>serializableFiles.
        entries (saveStateToLocalStorage
            [\<lparr>fileId = ''a.txt-0-1'', originalPath = ''a.txt'', newPath = ''a.ts'',
               content = [65], originalType = ''txt'', newType = ''ts''\<rparr>]
            \<lparr>entries = Map.empty, accepts = (\<lambda>m k v. True)\<rparr>) ''fileConverterState'' =
          Some (FilesJSON serializableFiles)
        \<and> map deserializeFile serializableFiles =
            [Some \<lparr>fileId = ''a.txt-0-1'', originalPath = ''a.txt'', newPath = ''a.ts'',
                    content = [65], originalType = ''txt'', newType = ''ts''\<rparr>])"
  using working_set_key [of "\<lparr>entries = Map.empty, accepts = (\<lambda>m k v. True)\<rparr>" _
        "[\<lparr>fileId = ''a.txt-0-1'', originalPath = ''a.txt'', newPath = ''a.ts'',
            content = [65], originalType = ''txt'', newType = ''ts''\<rparr>]",
        THEN conjunct2, THEN conjunct2, THEN conjunct2, THEN conjunct1]
  by simp

text \<open>
  C10, as stated (saving the working set and loading it back reproduces every record),
  fails where the store refuses the write: the save is dropped, and loading gives what
  the store held before, here nothing.
\<close>

theorem persistence_roundtrip_counterexample:
  "loadStateFromLocalStorage (saveStateToLocalStorage
        [\<lparr>fileId = ''a.txt-0-1'', originalPath = ''a.txt'', newPath = ''a.ts'',
           content = [65], originalType = ''txt'', newType = ''ts''\<rparr>]
        \<lparr>entries = Map.empty, accepts = (\<lambda>m k v. False)\<rparr>) = []"
  by (simp add: saveStateToLocalStorage_def setItem_def loadStateFromLocalStorage_def
      getItem_def)

text \<open>
  C10, amended: decoding the base64 text of a buffer gives the buffer back; loading from
  a store an empty working set saved to it, or a working set whose write the store
  accepted, gives the working set back, record by record; and where the store refuses
  the write of a non-empty working set, loading gives what the store held before.
\<close>

theorem persistence_roundtrip:
  "base64ToArrayBuffer (arrayBufferToBase64 buffer) = Some buffer
   \<and> (fs = [] \<or> accepts store (entries store) ''fileConverterState''
                    (FilesJSON (map serializeFile fs)) \<longrightarrow>
        loadStateFromLocalStorage (saveStateToLocalStorage fs store) = fs)
   \<and> (fs \<noteq> [] \<and> \<not> accepts store (entries store) ''fileConverterState''
                       (FilesJSON (map serializeFile fs)) \<longrightarrow>
        loadStateFromLocalStorage (saveStateToLocalStorage fs store) =
          loadStateFromLocalStorage store)"
proof (intro conjI impI)
  show "base64ToArrayBuffer (arrayBufferToBase64 buffer) = Some buffer"
    by (rule base64_roundtrip)
next
  assume a: "fs = [] \<or> accepts store (entries store) ''fileConverterState''
                    (FilesJSON (map serializeFile fs))"
  show "loadStateFromLocalStorage (saveStateToLocalStorage fs store) = fs"
  proof (cases "fs = []")
    case True
    then show ?thesis by (simp add: save_empty load_removed)
  next
    case False
    with a have "saveStateToLocalStorage fs store =
        store\<lparr>entries := (entries store)(''fileConverterState'' \<mapsto>
                  FilesJSON (map serializeFile fs))\<rparr>"
      by (simp add: save_accepted)
    then show ?thesis by (simp add: load_serialized)
  qed
next
  assume "fs \<noteq> [] \<and> \<not> accepts store (entries store) ''fileConverterState''
                       (FilesJSON (map serializeFile fs))"
  then show "loadStateFromLocalStorage (saveStateToLocalStorage fs store) =
          loadStateFromLocalStorage store"
    by (simp add: save_refused)
qed

theorem persistence_roundtrip_witness:
  "loadStateFromLocalStorage (saveStateToLocalStorage
        [\<lparr>fileId = ''a.txt-0-1'', originalPath = ''a.txt'', newPath = ''a.ts'',
           content = [65, 0, 255], originalType = ''txt'', newType = ''ts''\<rparr>]
        \<lparr>entries = Map.empty, accepts = (\<lambda>m k v. True)\<rparr>) =
     [\<lparr>fileId = ''a.txt-0-1'', originalPath = ''a.txt'', newPath = ''a.ts'',
        content = [65, 0, 255], originalType = ''txt'', newType = ''ts''\<rparr>]"
  using persistence_roundtrip [of _
        "[\<lparr>fileId = ''a.txt-0-1'', originalPath = ''a.txt'', newPath = ''a.ts'',
            content = [65, 0, 255], originalType = ''txt'', newType = ''ts''\<rparr>]"
        "\<lparr>entries = Map.empty, accepts = (\<lambda>m k v. True)\<rparr>",
        THEN conjunct2, THEN conjunct1]
  by simp

subsection \<open>The invariant of the records\<close>

lemma split_single: "c \<notin> set s \<longleftrightarrow> split c s = [s]"
proof
  assume "c \<notin> set s" then show "split c s = [s]" by (rule split_free)
next
  assume "split c s = [s]"
  then have "s \<in> set (split c s)" by simp
  then show "c \<notin> set s" by (rule split_no_sep)
qed

lemma join_snoc: "bs \<noteq> [] \<Longrightarrow> join c (bs @ [l]) = join c bs @ c # l"
  by (induction c bs rule: join.induct) auto

lemma baseName_spec: "baseName leaf = spec_baseName leaf"
proof (cases "CHR ''.'' \<in> set leaf")
  case False
  then show ?thesis by (simp add: baseName_def spec_baseName_def split_free)
next
  case True
  define parts where "parts = split CHR ''.'' leaf"
  have ne: "parts \<noteq> []" by (simp add: parts_def split_nonempty)
  have "parts \<noteq> [leaf]" using True split_single [of "CHR ''.''" leaf] by (simp add: parts_def)
  have j: "join CHR ''.'' parts = leaf" by (simp add: parts_def join_split)
  have len: "length parts > 1"
  proof (rule ccontr)
    assume "\<not> length parts > 1"
    with ne obtain w where w: "parts = [w]" by (cases parts) auto
    with j have "w = leaf" by simp
    with w \<open>parts \<noteq> [leaf]\<close> show False by simp
  qed
  define bs l where "bs = butlast parts" and "l = last parts"
  have p: "parts = bs @ [l]" using ne by (simp add: bs_def l_def)
  have bs: "bs \<noteq> []" using len p by (cases bs) auto
  have "l \<in> set parts" using ne by (simp add: l_def)
  then have l: "CHR ''.'' \<notin> set l" unfolding parts_def by (rule split_no_sep)
  have "leaf = join CHR ''.'' bs @ CHR ''.'' # l"
    using j p join_snoc [OF bs] by simp
  then have "rev leaf = rev l @ CHR ''.'' # rev (join CHR ''.'' bs)" by simp
  then have "dropWhile (\<lambda>c. c \<noteq> CHR ''.'') (rev leaf) = CHR ''.'' # rev (join CHR ''.'' bs)"
    using l by (auto simp: dropWhile_append3)
  then have "spec_baseName leaf = join CHR ''.'' bs"
    using True by (simp add: spec_baseName_def)
  moreover have "baseName leaf = join CHR ''.'' bs"
    using len by (simp add: baseName_def Let_def parts_def [symmetric] bs_def)
  ultimately show ?thesis by simp
qed

lemma newPath_of_spec:
  "newPath_of p e =
     join CHR ''/'' (filter (\<lambda>s. s \<noteq> []) (butlast (split CHR ''/'' p))
                    @ [spec_baseName (last (split CHR ''/'' p)) @ ''.'' @ e])"
  by (simp add: newPath_of_def Let_def newName_def baseName_spec)

text \<open>
  C8, as stated (all directory segments are preserved verbatim), fails for a path with an
  empty directory segment: \<^verbatim>\<open>filter(Boolean)\<close> drops it.
\<close>

theorem newPath_invariant_counterexample:
  "newPath (makeRecord decimalText ''ts''
      (\<lparr>name = ''b.txt'', fsize = 1, lastModified = 0, bytes = Some [65]\<rparr>, ''a//b.txt'') [65])
     = ''a/b.ts''
   \<and> spec_newPath ''a//b.txt'' ''ts'' = ''a//b.ts''"
  by (simp add: makeRecord_def Let_def newPath_of_def newName_def baseName_def spec_newPath_def
      spec_baseName_def)

text \<open>
  C8, amended: the \<open>newPath\<close> of every record that the pipeline makes is its
  \<open>originalPath\<close> with the leaf name cut at its last \<^verbatim>\<open>.\<close> (not cut when it has
  none) and followed by \<^verbatim>\<open>.\<close> and the target extension, the non-empty directory
  segments kept verbatim and in order and the empty ones dropped; when the path has no
  empty directory segment, all its directory segments are kept verbatim.
\<close>

theorem newPath_invariant:
  "newPath (makeRecord numberToString targetType item result) =
     join CHR ''/''
       (filter (\<lambda>s. s \<noteq> [])
          (butlast (split CHR ''/''
             (originalPath (makeRecord numberToString targetType item result))))
        @ [spec_baseName
             (last (split CHR ''/''
                (originalPath (makeRecord numberToString targetType item result))))
           @ ''.'' @ newType (makeRecord numberToString targetType item result)])
   \<and> ((\<forall>d \<in> set (butlast (split CHR ''/'' (snd item))). d \<noteq> []) \<longrightarrow>
        newPath (makeRecord numberToString targetType item result) =
          spec_newPath (originalPath (makeRecord numberToString targetType item result))
            (newType (makeRecord numberToString targetType item result)))"
proof -
  have "(\<forall>d \<in> set ds. d \<noteq> []) \<Longrightarrow> filter (\<lambda>s. s \<noteq> []) ds = ds" for ds :: "string list"
    by (simp add: filter_id_conv)
  then show ?thesis
    by (simp add: makeRecord_def Let_def newPath_of_spec spec_newPath_def)
qed

theorem newPath_invariant_witness:
  "[] \<notin> set (butlast (split CHR ''/'' ''src/components/Button.tsx''))
   \<and> newPath (makeRecord decimalText ''ts''
        (\<lparr>name = ''Button.tsx'', fsize = 1, lastModified = 0, bytes = Some [65]\<rparr>,
         ''src/components/Button.tsx'') [65]) =
      spec_newPath ''src/components/Button.tsx'' ''ts''
   \<and> spec_newPath ''src/components/Button.tsx'' ''ts'' = ''src/components/Button.ts''"
  using newPath_invariant [of decimalText "''ts''"
        "(\<lparr>name = ''Button.tsx'', fsize = 1, lastModified = 0, bytes = Some [65]\<rparr>,
          ''src/components/Button.tsx'')" "[65]", THEN conjunct2]
  by (simp add: makeRecord_def Let_def spec_newPath_def spec_baseName_def)

end
